theory Spec2Isabelle
  imports Main
begin

section \<open>The legacy caching facade \<open>st.cache\<close>\<close>

text \<open>
  The source file \<^verbatim>\<open>lib/streamlit/runtime/caching/legacy_cache_api.py\<close> holds one
  function, \<^verbatim>\<open>cache\<close>. It shows a deprecation warning and then returns what one of
  the two successor decorators, \<^verbatim>\<open>st.cache_resource\<close> or \<^verbatim>\<open>st.cache_data\<close>,
  returns. Both successors, \<^verbatim>\<open>show_deprecation_warning\<close> and the constant
  \<^verbatim>\<open>CACHE_DOCS_URL\<close> live in other modules, so the model takes them as parameters
  and records every call the facade makes to them, in order, in a trace. The decorator
  \<^verbatim>\<open>@gather_metrics("cache")\<close> around the function belongs to another module too; the
  model is of the function's body, and of a call in which \<^verbatim>\<open>show_deprecation_warning\<close>
  returns.
\<close>

subsection \<open>Arguments and Python values\<close>

text \<open>
  The parameters of \<^verbatim>\<open>cache\<close>, typed as the signature annotates them (lines 62 to
  71), so that \<^verbatim>\<open>if allow_output_mutation\<close> tests a boolean. The callable, the
  hash-function dictionary and the float of \<^verbatim>\<open>ttl\<close> are only passed on, so their
  types stay abstract.
\<close>

record ('f, 'h, 't) cache_args =
  func :: "'f option"
  persist :: bool
  allow_output_mutation :: bool
  show_spinner :: bool
  suppress_st_warning :: bool
  hash_funcs :: "'h option"
  max_entries :: "int option"
  ttl :: "'t option"

text \<open>The values that travel in a call to a successor.\<close>

datatype ('f, 'h, 't) pyval =
    PyNone
  | PyBool bool
  | PyInt int
  | PyFloat 't
  | PyFunc 'f
  | PyHashFuncs 'h

definition py_opt :: "('a \<Rightarrow> ('f, 'h, 't) pyval) \<Rightarrow> 'a option \<Rightarrow> ('f, 'h, 't) pyval" where
  "py_opt inject x = (case x of None \<Rightarrow> PyNone | Some v \<Rightarrow> inject v)"

subsection \<open>Calls to the collaborators\<close>

datatype successor = CacheResource | CacheData

datatype ('f, 'h, 't) call =
  Call (callee: successor)
       (positional: "('f, 'h, 't) pyval list")
       (kwargs: "(string \<times> ('f, 'h, 't) pyval) list")

datatype ('f, 'h, 't) event =
    DeprecationWarning string
  | SuccessorCall "('f, 'h, 't) call"

text \<open>
  What the rest of the package supplies: the documentation URL and the value each
  successor returns for the arguments it is called with.
\<close>

record ('f, 'h, 't, 'r) streamlit =
  CACHE_DOCS_URL :: string
  st_cache_resource :: "('f, 'h, 't) pyval list \<Rightarrow> (string \<times> ('f, 'h, 't) pyval) list \<Rightarrow> 'r"
  st_cache_data :: "('f, 'h, 't) pyval list \<Rightarrow> (string \<times> ('f, 'h, 't) pyval) list \<Rightarrow> 'r"

definition show_deprecation_warning ::
  "string \<Rightarrow> ('f, 'h, 't) event list \<Rightarrow> ('f, 'h, 't) event list" where
  "show_deprecation_warning message tr = tr @ [DeprecationWarning message]"

definition invoke ::
  "('f, 'h, 't, 'r) streamlit \<Rightarrow> successor \<Rightarrow> ('f, 'h, 't) pyval list \<Rightarrow>
   (string \<times> ('f, 'h, 't) pyval) list \<Rightarrow> ('f, 'h, 't) event list \<Rightarrow>
   'r \<times> ('f, 'h, 't) event list" where
  "invoke st target pos kw tr =
     ((case target of
         CacheResource \<Rightarrow> st_cache_resource st pos kw
       | CacheData \<Rightarrow> st_cache_data st pos kw),
      tr @ [SuccessorCall (Call target pos kw)])"

subsection \<open>The facade\<close>

text \<open>The f-string of lines 163 to 165.\<close>

definition deprecation_message :: "string \<Rightarrow> string" where
  "deprecation_message url =
     ''`st.cache` is deprecated and will be removed soon. Please use one of Streamlit's new caching commands,''
     @ [CHR 0x0A]
     @ ''`st.cache_data` or `st.cache_resource`.''
     @ [CHR 0x0A, CHR 0x0A]
     @ ''More information [in our docs]('' @ url @ '').''"

text \<open>
  Lines 162 to 184. \<^verbatim>\<open>st.cache_resource\<close> is called with \<^verbatim>\<open>func\<close> and four
  keywords, \<^verbatim>\<open>st.cache_data\<close> with \<^verbatim>\<open>func\<close> and five: only the second call
  passes \<^verbatim>\<open>persist\<close>. \<^verbatim>\<open>suppress_st_warning\<close> is read nowhere.
\<close>

definition cache ::
  "('f, 'h, 't, 'r) streamlit \<Rightarrow> ('f, 'h, 't) cache_args \<Rightarrow> ('f, 'h, 't) event list \<Rightarrow>
   'r \<times> ('f, 'h, 't) event list" where
  "cache st a tr =
     (let tr1 = show_deprecation_warning (deprecation_message (CACHE_DOCS_URL st)) tr
      in if allow_output_mutation a then
           invoke st CacheResource
             [py_opt PyFunc (func a)]
             [(''show_spinner'', PyBool (show_spinner a)),
              (''hash_funcs'', py_opt PyHashFuncs (hash_funcs a)),
              (''max_entries'', py_opt PyInt (max_entries a)),
              (''ttl'', py_opt PyFloat (ttl a))]
             tr1
         else
           invoke st CacheData
             [py_opt PyFunc (func a)]
             [(''persist'', PyBool (persist a)),
              (''show_spinner'', PyBool (show_spinner a)),
              (''hash_funcs'', py_opt PyHashFuncs (hash_funcs a)),
              (''max_entries'', py_opt PyInt (max_entries a)),
              (''ttl'', py_opt PyFloat (ttl a))]
             tr1)"

subsection \<open>Reading a trace\<close>

fun successor_calls :: "('f, 'h, 't) event list \<Rightarrow> ('f, 'h, 't) call list" where
  "successor_calls [] = []"
| "successor_calls (DeprecationWarning m # es) = successor_calls es"
| "successor_calls (SuccessorCall c # es) = c # successor_calls es"

definition keyword_arg :: "string \<Rightarrow> ('f, 'h, 't) call \<Rightarrow> ('f, 'h, 't) pyval option" where
  "keyword_arg name c = map_of (kwargs c) name"

subsection \<open>Concrete collaborators and arguments\<close>

definition demo_streamlit :: "(string, nat, int, string) streamlit" where
  "demo_streamlit =
     \<lparr>CACHE_DOCS_URL = ''https://docs.streamlit.io/caching'',
      st_cache_resource = (\<lambda>pos kw. ''resource''),
      st_cache_data = (\<lambda>pos kw. ''data'')\<rparr>"

definition default_args :: "(string, nat, int) cache_args" where
  "default_args =
     \<lparr>func = None, persist = False, allow_output_mutation = False, show_spinner = True,
      suppress_st_warning = False, hash_funcs = None, max_entries = None, ttl = None\<rparr>"

definition mutable_persist_args :: "(string, nat, int) cache_args" where
  "mutable_persist_args =
     default_args\<lparr>func := Some ''fetch'', persist := True, allow_output_mutation := True\<rparr>"

definition tuned_args :: "(string, nat, int) cache_args" where
  "tuned_args =
     \<lparr>func = Some ''fetch'', persist = True, allow_output_mutation = False,
      show_spinner = False, suppress_st_warning = True, hash_funcs = Some 7,
      max_entries = Some 100, ttl = Some 60\<rparr>"

section \<open>The memoizing cache engine behind the successors\<close>

text \<open>
  \<^verbatim>\<open>st.cache_data\<close> and \<^verbatim>\<open>st.cache_resource\<close> are defined in other modules of the
  package. What they do is described by the specification only (sections 3 to 7), and the
  definitions of this section follow that description. Time is an integer count of clock
  ticks; a call runs to its end before the next one starts.
\<close>

subsection \<open>Data model\<close>

datatype mutation_policy = SharedMutable | IsolatedCopy

text \<open>
  Modelled from the spec: the CacheEntry of section 3 (the engine's class is missing):
  \<^verbatim>\<open>{ key, value, created_at, last_touch }\<close>.
\<close>

record ('k, 'v) cache_entry =
  key :: 'k
  cached_value :: 'v
  created_at :: int
  last_touch :: int

text \<open>
  Modelled from the spec: the CacheConfig of section 3 (the engine's class is missing):
  \<^verbatim>\<open>{ max_entries: Option<u64>, ttl: Option<Duration>, persist, hash_funcs,
  mutation_policy }\<close>.
\<close>

record 'h cache_config =
  cfg_max_entries :: "nat option"
  cfg_ttl :: "int option"
  cfg_persist :: bool
  cfg_hash_funcs :: 'h
  cfg_mutation_policy :: mutation_policy

text \<open>
  Modelled from the spec: one cache instance (section 2; the engine's class is missing):
  its configuration, the Cache Store as the list of its entries in insertion order, and the
  Persistence Layer as the entries on the backing store, whether that store accepts writes,
  and the keys whose write failed and was reported. \<open>records_touch\<close> says whether a hit
  updates \<open>last_touch\<close> (section 3, lifecycle).
\<close>

record ('k, 'v, 'h) cache_instance =
  config :: "'h cache_config"
  entries :: "('k, 'v) cache_entry list"
  disk :: "('k, 'v) cache_entry list"
  disk_writable :: bool
  persist_errors :: "'k list"
  records_touch :: bool

text \<open>
  Modelled from the spec: the errors of section 7 that end a call or a construction (the
  engine's exception classes are missing). A PersistError is reported, not raised.
\<close>

datatype 'e cache_error =
    UnhashableArgumentError string string
  | ComputationError 'e
  | ConfigurationError

subsection \<open>Cache Store\<close>

text \<open>
  Modelled from the spec: \<^verbatim>\<open>get\<close>, \<^verbatim>\<open>remove\<close> and \<^verbatim>\<open>clear\<close> of section 4.2 (the
  engine's store is missing).
\<close>

definition store_get :: "'k \<Rightarrow> ('k, 'v) cache_entry list \<Rightarrow> ('k, 'v) cache_entry option" where
  "store_get k s = find (\<lambda>e. key e = k) s"

definition store_remove :: "'k \<Rightarrow> ('k, 'v) cache_entry list \<Rightarrow> ('k, 'v) cache_entry list" where
  "store_remove k s = filter (\<lambda>e. key e \<noteq> k) s"

definition store_clear :: "('k, 'v) cache_entry list \<Rightarrow> ('k, 'v) cache_entry list" where
  "store_clear s = []"

text \<open>
  Modelled from the spec: the entry with the oldest \<open>created_at\<close> (section 4.2; the
  engine's eviction is missing). Among entries created at the same tick the one inserted
  first counts as the oldest.
\<close>

fun oldest :: "('k, 'v) cache_entry list \<Rightarrow> ('k, 'v) cache_entry option" where
  "oldest [] = None"
| "oldest (e # es) =
     (case oldest es of
        None \<Rightarrow> Some e
      | Some x \<Rightarrow> if created_at e \<le> created_at x then Some e else Some x)"

definition evict_oldest :: "('k, 'v) cache_entry list \<Rightarrow> ('k, 'v) cache_entry list" where
  "evict_oldest s = (case oldest s of None \<Rightarrow> s | Some x \<Rightarrow> store_remove (key x) s)"

text \<open>
  Modelled from the spec: \<^verbatim>\<open>put\<close> of section 4.2 (the engine's store is missing). When
  the key is new and \<open>|entries| == max_entries\<close>, the oldest entry is removed before the
  new one is inserted. An entry whose key is present replaces the old one, so that a key has
  at most one entry. \<open>insert_entry\<close> takes the entry whole, for an entry that comes back
  from the Persistence Layer with its recorded \<open>created_at\<close>.
\<close>

definition insert_entry ::
  "'h cache_config \<Rightarrow> ('k, 'v) cache_entry \<Rightarrow> ('k, 'v) cache_entry list \<Rightarrow>
   ('k, 'v) cache_entry list" where
  "insert_entry cfg e s =
     (case store_get (key e) s of
        Some old \<Rightarrow> store_remove (key e) s @ [e]
      | None \<Rightarrow>
          if cfg_max_entries cfg = Some (length s) then evict_oldest s @ [e]
          else s @ [e])"

text \<open>
  Modelled from the spec: the CacheEntry created on a computation miss (section 3,
  lifecycle; the engine's class is missing), created and last touched now.
\<close>

definition new_entry :: "int \<Rightarrow> 'k \<Rightarrow> 'v \<Rightarrow> ('k, 'v) cache_entry" where
  "new_entry now k v = \<lparr>key = k, cached_value = v, created_at = now, last_touch = now\<rparr>"

definition store_put ::
  "'h cache_config \<Rightarrow> int \<Rightarrow> 'k \<Rightarrow> 'v \<Rightarrow> ('k, 'v) cache_entry list \<Rightarrow>
   ('k, 'v) cache_entry list" where
  "store_put cfg now k v s = insert_entry cfg (new_entry now k v) s"

subsection \<open>Expiry Manager\<close>

text \<open>
  Modelled from the spec: \<^verbatim>\<open>is_expired(entry, ttl, now)\<close> of section 4.3 (the engine's
  expiry check is missing): true iff \<open>now - entry.created_at >= ttl\<close>. Without a ttl
  nothing expires.
\<close>

definition is_expired :: "('k, 'v) cache_entry \<Rightarrow> int \<Rightarrow> int \<Rightarrow> bool" where
  "is_expired e d now = (now - created_at e \<ge> d)"

definition expired :: "'h cache_config \<Rightarrow> ('k, 'v) cache_entry \<Rightarrow> int \<Rightarrow> bool" where
  "expired cfg e now = (case cfg_ttl cfg of None \<Rightarrow> False | Some d \<Rightarrow> is_expired e d now)"

text \<open>
  Modelled from the spec: the update of \<open>last_touch\<close> on a read (section 3, lifecycle; the
  engine's lookup is missing).
\<close>

definition touch :: "int \<Rightarrow> 'k \<Rightarrow> ('k, 'v) cache_entry list \<Rightarrow> ('k, 'v) cache_entry list" where
  "touch now k s = map (\<lambda>e. if key e = k then e\<lparr>last_touch := now\<rparr> else e) s"

text \<open>
  Modelled from the spec: the \<^verbatim>\<open>get\<close> of a cache instance (sections 3 and 4.3; the
  engine's lookup is missing). Expiry is checked on every get: an expired entry is a miss
  and is removed from the store at once. A hit is recorded in \<open>last_touch\<close> when the
  instance records touches.
\<close>

definition cache_get ::
  "int \<Rightarrow> 'k \<Rightarrow> ('k, 'v, 'h) cache_instance \<Rightarrow>
   ('k, 'v) cache_entry option \<times> ('k, 'v, 'h) cache_instance" where
  "cache_get now k c =
     (case store_get k (entries c) of
        None \<Rightarrow> (None, c)
      | Some e \<Rightarrow>
          if expired (config c) e now then
            (None, c\<lparr>entries := store_remove k (entries c)\<rparr>)
          else if records_touch c then
            (Some (e\<lparr>last_touch := now\<rparr>), c\<lparr>entries := touch now k (entries c)\<rparr>)
          else (Some e, c))"

text \<open>
  Modelled from the spec: \<^verbatim>\<open>put\<close> on a cache instance, at the time \<open>now\<close> (section 4.2;
  the engine's store is missing).
\<close>

definition cache_put ::
  "int \<Rightarrow> 'k \<Rightarrow> 'v \<Rightarrow> ('k, 'v, 'h) cache_instance \<Rightarrow> ('k, 'v, 'h) cache_instance" where
  "cache_put now k v c = c\<lparr>entries := store_put (config c) now k v (entries c)\<rparr>"

text \<open>
  Modelled from the spec: an access pattern (section 8, FIFO eviction), a sequence of gets,
  each with its own time and key.
\<close>

fun reads ::
  "(int \<times> 'k) list \<Rightarrow> ('k, 'v, 'h) cache_instance \<Rightarrow> ('k, 'v, 'h) cache_instance" where
  "reads [] c = c"
| "reads ((now, k) # rs) c = reads rs (snd (cache_get now k c))"

subsection \<open>Persistence Layer\<close>

text \<open>
  Modelled from the spec: \<^verbatim>\<open>load\<close> and \<^verbatim>\<open>save\<close> of section 4.4 (the engine's
  persistence is missing). Both are active only when \<open>persist\<close> is set. A loaded entry is
  judged by the Expiry Manager on the \<open>created_at\<close> it was saved with. A write that
  fails is reported and leaves the entry in memory only. A hit on the backing store is
  promoted into the Cache Store as it is, under the same eviction policy.
\<close>

definition load :: "'k \<Rightarrow> ('k, 'v, 'h) cache_instance \<Rightarrow> ('k, 'v) cache_entry option" where
  "load k c = (if cfg_persist (config c) then store_get k (disk c) else None)"

definition load_fresh ::
  "int \<Rightarrow> 'k \<Rightarrow> ('k, 'v, 'h) cache_instance \<Rightarrow> ('k, 'v) cache_entry option" where
  "load_fresh now k c =
     (case load k c of
        None \<Rightarrow> None
      | Some e \<Rightarrow> if expired (config c) e now then None else Some e)"

definition save ::
  "'k \<Rightarrow> ('k, 'v) cache_entry \<Rightarrow> ('k, 'v, 'h) cache_instance \<Rightarrow> ('k, 'v, 'h) cache_instance" where
  "save k e c =
     (if cfg_persist (config c) then
        if disk_writable c then c\<lparr>disk := store_remove k (disk c) @ [e]\<rparr>
        else c\<lparr>persist_errors := persist_errors c @ [k]\<rparr>
      else c)"

definition promote ::
  "('k, 'v) cache_entry \<Rightarrow> ('k, 'v, 'h) cache_instance \<Rightarrow> ('k, 'v, 'h) cache_instance" where
  "promote e c = c\<lparr>entries := insert_entry (config c) e (entries c)\<rparr>"

subsection \<open>Construction and the memoized call\<close>

text \<open>
  Modelled from the spec: construction of a cache instance on a backing store (sections 3
  and 7; the engine's constructor is missing). A \<open>max_entries\<close> of zero fails at
  construction.
\<close>

definition new_cache ::
  "'h cache_config \<Rightarrow> ('k, 'v) cache_entry list \<Rightarrow> bool \<Rightarrow> bool \<Rightarrow>
   'e cache_error + ('k, 'v, 'h) cache_instance" where
  "new_cache cfg backing writable touching =
     (if cfg_max_entries cfg = Some 0 then Inl ConfigurationError
      else Inr \<lparr>config = cfg, entries = [], disk = backing, disk_writable = writable,
                persist_errors = [], records_touch = touching\<rparr>)"

text \<open>
  Modelled from the spec: one call of the decorated callable (control flow of section 2,
  with sections 4.4 and 7; the engine's wrapper is missing). \<open>derive\<close> is the Key Deriver
  with the callable's identity fixed: it gives the CallKey, or the name and the type of an
  argument that cannot be hashed. \<open>f\<close> is the wrapped callable, which returns a value or
  fails with an error of its own. The result comes with the new state of the instance and
  with the list of arguments \<open>f\<close> was run on during the call.
\<close>

definition cached_call ::
  "('h \<Rightarrow> 'a \<Rightarrow> (string \<times> string) + 'k) \<Rightarrow> ('a \<Rightarrow> 'e + 'v) \<Rightarrow> int \<Rightarrow> 'a \<Rightarrow>
   ('k, 'v, 'h) cache_instance \<Rightarrow>
   ('e cache_error + 'v) \<times> ('k, 'v, 'h) cache_instance \<times> 'a list" where
  "cached_call derive f now a c =
     (case derive (cfg_hash_funcs (config c)) a of
        Inl (name, type_name) \<Rightarrow> (Inl (UnhashableArgumentError name type_name), c, [])
      | Inr k \<Rightarrow>
          (case cache_get now k c of
             (Some e, c1) \<Rightarrow> (Inr (cached_value e), c1, [])
           | (None, c1) \<Rightarrow>
               (case load_fresh now k c1 of
                  Some e \<Rightarrow> (Inr (cached_value e), promote e c1, [])
                | None \<Rightarrow>
                    (case f a of
                       Inl err \<Rightarrow> (Inl (ComputationError err), c1, [a])
                     | Inr v \<Rightarrow>
                         (Inr v, save k (new_entry now k v) (cache_put now k v c1), [a])))))"

subsection \<open>A concrete instance\<close>

definition fetch :: "string \<Rightarrow> string + nat" where
  "fetch url = (if url = ''bad'' then Inl ''unreachable'' else Inr (length url))"

definition by_url :: "unit \<Rightarrow> string \<Rightarrow> (string \<times> string) + string" where
  "by_url registry url = Inr url"

definition demo_config :: "unit cache_config" where
  "demo_config =
     \<lparr>cfg_max_entries = Some 2, cfg_ttl = None, cfg_persist = False, cfg_hash_funcs = (),
      cfg_mutation_policy = IsolatedCopy\<rparr>"

definition demo_cache :: "(string, nat, unit) cache_instance" where
  "demo_cache =
     \<lparr>config = demo_config, entries = [], disk = [], disk_writable = True,
      persist_errors = [], records_touch = True\<rparr>"

text \<open>A callable that fails on every argument, as a fetch does while the network is down.\<close>

definition offline :: "string \<Rightarrow> string + nat" where
  "offline url = Inl ''offline''"

definition ttl_cache :: "(string, nat, unit) cache_instance" where
  "ttl_cache = demo_cache\<lparr>config := demo_config\<lparr>cfg_ttl := Some 10\<rparr>\<rparr>"

definition warmed_cache :: "(string, nat, unit) cache_instance" where
  "warmed_cache = fst (snd (cached_call by_url fetch 0 ''A'' ttl_cache))"

definition two_entries :: "(string, nat) cache_entry list" where
  "two_entries = [new_entry 1 ''k1'' 10, new_entry 2 ''k2'' 20]"

definition persisted_cache :: "(string, nat, unit) cache_instance" where
  "persisted_cache =
     \<lparr>config = demo_config\<lparr>cfg_ttl := Some 10, cfg_persist := True\<rparr>, entries = [],
      disk = [new_entry 0 ''A'' 1], disk_writable = True, persist_errors = [],
      records_touch = True\<rparr>"

definition first_call :: "(string cache_error + nat) \<times> (string, nat, unit) cache_instance \<times> string list" where
  "first_call = cached_call by_url fetch 0 ''A'' demo_cache"

definition second_call :: "(string cache_error + nat) \<times> (string, nat, unit) cache_instance \<times> string list" where
  "second_call = cached_call by_url fetch 5 ''A'' (fst (snd first_call))"

definition third_call :: "(string cache_error + nat) \<times> (string, nat, unit) cache_instance \<times> string list" where
  "third_call = cached_call by_url fetch 6 ''BB'' (fst (snd second_call))"

section \<open>Properties of the facade\<close>

lemma successor_calls_append:
  "successor_calls (xs @ ys) = successor_calls xs @ successor_calls ys"
  by (induction xs rule: successor_calls.induct) simp_all

lemma cache_resource_branch:
  "allow_output_mutation a \<Longrightarrow>
   cache st a tr =
     (st_cache_resource st [py_opt PyFunc (func a)]
        [(''show_spinner'', PyBool (show_spinner a)),
         (''hash_funcs'', py_opt PyHashFuncs (hash_funcs a)),
         (''max_entries'', py_opt PyInt (max_entries a)),
         (''ttl'', py_opt PyFloat (ttl a))],
      tr @ [DeprecationWarning (deprecation_message (CACHE_DOCS_URL st)),
            SuccessorCall (Call CacheResource [py_opt PyFunc (func a)]
              [(''show_spinner'', PyBool (show_spinner a)),
               (''hash_funcs'', py_opt PyHashFuncs (hash_funcs a)),
               (''max_entries'', py_opt PyInt (max_entries a)),
               (''ttl'', py_opt PyFloat (ttl a))])])"
  by (simp add: cache_def invoke_def show_deprecation_warning_def)

lemma cache_data_branch:
  "\<not> allow_output_mutation a \<Longrightarrow>
   cache st a tr =
     (st_cache_data st [py_opt PyFunc (func a)]
        [(''persist'', PyBool (persist a)),
         (''show_spinner'', PyBool (show_spinner a)),
         (''hash_funcs'', py_opt PyHashFuncs (hash_funcs a)),
         (''max_entries'', py_opt PyInt (max_entries a)),
         (''ttl'', py_opt PyFloat (ttl a))],
      tr @ [DeprecationWarning (deprecation_message (CACHE_DOCS_URL st)),
            SuccessorCall (Call CacheData [py_opt PyFunc (func a)]
              [(''persist'', PyBool (persist a)),
               (''show_spinner'', PyBool (show_spinner a)),
               (''hash_funcs'', py_opt PyHashFuncs (hash_funcs a)),
               (''max_entries'', py_opt PyInt (max_entries a)),
               (''ttl'', py_opt PyFloat (ttl a))])])"
  by (simp add: cache_def invoke_def show_deprecation_warning_def)

text \<open>
  C1. Every call of \<^verbatim>\<open>cache\<close> invokes exactly one successor, and which one depends on
  \<^verbatim>\<open>allow_output_mutation\<close> alone: \<^verbatim>\<open>st.cache_resource\<close> when the flag is true,
  \<^verbatim>\<open>st.cache_data\<close> when it is false. The value returned is the one that successor
  returned.
\<close>

theorem cache_dispatch_by_flag:
  "\<exists>pos kw.
     successor_calls (snd (cache st a tr)) =
       successor_calls tr @
         [Call (if allow_output_mutation a then CacheResource else CacheData) pos kw] \<and>
     fst (cache st a tr) =
       (if allow_output_mutation a then st_cache_resource st pos kw
        else st_cache_data st pos kw)"
proof (cases "allow_output_mutation a")
  case True
  then show ?thesis
    by (simp add: cache_resource_branch successor_calls_append)
next
  case False
  then show ?thesis
    by (simp add: cache_data_branch successor_calls_append)
qed

theorem cache_dispatch_by_flag_witness:
  "\<exists>pos kw.
     successor_calls (snd (cache demo_streamlit mutable_persist_args [])) =
       [Call CacheResource pos kw] \<and>
     fst (cache demo_streamlit mutable_persist_args []) = ''resource''"
  using cache_dispatch_by_flag [of demo_streamlit mutable_persist_args "[]"]
  by (simp add: mutable_persist_args_def default_args_def demo_streamlit_def)

text \<open>
  C2, as the specification states it: whichever successor is selected receives all five of
  \<^verbatim>\<open>persist\<close>, \<^verbatim>\<open>show_spinner\<close>, \<^verbatim>\<open>hash_funcs\<close>, \<^verbatim>\<open>max_entries\<close> and
  \<^verbatim>\<open>ttl\<close>. This fails for \<^verbatim>\<open>st.cache_resource\<close>: with
  \<^verbatim>\<open>allow_output_mutation=True, persist=True\<close> the one call made carries no
  \<^verbatim>\<open>persist\<close> keyword.
\<close>

theorem cache_forwards_persist_counterexample:
  "map (keyword_arg ''persist'')
       (successor_calls (snd (cache demo_streamlit mutable_persist_args []))) \<noteq>
   [Some (PyBool (persist mutable_persist_args))]"
  by (simp add: cache_def invoke_def show_deprecation_warning_def keyword_arg_def
      mutable_persist_args_def default_args_def)

text \<open>
  C2, amended. Whichever branch is selected, the one successor call goes to the successor
  that \<^verbatim>\<open>allow_output_mutation\<close> selects, has \<^verbatim>\<open>func\<close> as its only positional
  argument and the keywords \<^verbatim>\<open>show_spinner\<close>, \<^verbatim>\<open>hash_funcs\<close>,
  \<^verbatim>\<open>max_entries\<close> and \<^verbatim>\<open>ttl\<close> with the values the facade received.
  \<^verbatim>\<open>persist\<close> is passed, unchanged, to \<^verbatim>\<open>st.cache_data\<close> only; the call to
  \<^verbatim>\<open>st.cache_resource\<close> has no such keyword, and neither call has any other.
\<close>

theorem cache_forwards_arguments:
  "\<exists>c. successor_calls (snd (cache st a tr)) = successor_calls tr @ [c] \<and>
       callee c = (if allow_output_mutation a then CacheResource else CacheData) \<and>
       fst (cache st a tr) =
         (if allow_output_mutation a then st_cache_resource st (positional c) (kwargs c)
          else st_cache_data st (positional c) (kwargs c)) \<and>
       positional c = [py_opt PyFunc (func a)] \<and>
       keyword_arg ''show_spinner'' c = Some (PyBool (show_spinner a)) \<and>
       keyword_arg ''hash_funcs'' c = Some (py_opt PyHashFuncs (hash_funcs a)) \<and>
       keyword_arg ''max_entries'' c = Some (py_opt PyInt (max_entries a)) \<and>
       keyword_arg ''ttl'' c = Some (py_opt PyFloat (ttl a)) \<and>
       keyword_arg ''persist'' c =
         (if callee c = CacheData then Some (PyBool (persist a)) else None) \<and>
       map fst (kwargs c) =
         (if callee c = CacheData
          then [''persist'', ''show_spinner'', ''hash_funcs'', ''max_entries'', ''ttl'']
          else [''show_spinner'', ''hash_funcs'', ''max_entries'', ''ttl''])"
proof (cases "allow_output_mutation a")
  case True
  then show ?thesis
    by (simp add: cache_resource_branch successor_calls_append keyword_arg_def)
next
  case False
  then show ?thesis
    by (simp add: cache_data_branch successor_calls_append keyword_arg_def)
qed

theorem cache_forwards_arguments_witness:
  "successor_calls (snd (cache demo_streamlit tuned_args [])) =
     [Call CacheData [PyFunc ''fetch'']
        [(''persist'', PyBool True), (''show_spinner'', PyBool False),
         (''hash_funcs'', PyHashFuncs 7), (''max_entries'', PyInt 100),
         (''ttl'', PyFloat 60)]] \<and>
   fst (cache demo_streamlit tuned_args []) = ''data'' \<and>
   successor_calls
     (snd (cache demo_streamlit (tuned_args\<lparr>allow_output_mutation := True\<rparr>) [])) =
     [Call CacheResource [PyFunc ''fetch'']
        [(''show_spinner'', PyBool False), (''hash_funcs'', PyHashFuncs 7),
         (''max_entries'', PyInt 100), (''ttl'', PyFloat 60)]] \<and>
   fst (cache demo_streamlit (tuned_args\<lparr>allow_output_mutation := True\<rparr>) []) =
     ''resource''"
proof -
  have shape: "c = Call (callee c) (positional c) (kwargs c)" for c :: "(string, nat, int) call"
    by simp
  have data: "\<not> allow_output_mutation tuned_args"
    and res: "allow_output_mutation (tuned_args\<lparr>allow_output_mutation := True\<rparr>)"
    by (simp_all add: tuned_args_def)
  from cache_forwards_arguments [of demo_streamlit tuned_args "[]"] data
  obtain c where c: "successor_calls (snd (cache demo_streamlit tuned_args [])) = [c]"
    "callee c = CacheData" "fst (cache demo_streamlit tuned_args []) = ''data''"
    by (auto simp: demo_streamlit_def)
  from cache_forwards_arguments
         [of demo_streamlit "tuned_args\<lparr>allow_output_mutation := True\<rparr>" "[]"] res
  obtain c' where c':
    "successor_calls
       (snd (cache demo_streamlit (tuned_args\<lparr>allow_output_mutation := True\<rparr>) [])) = [c']"
    "callee c' = CacheResource"
    "fst (cache demo_streamlit (tuned_args\<lparr>allow_output_mutation := True\<rparr>) []) = ''resource''"
    by (auto simp: demo_streamlit_def)
  have "successor_calls (snd (cache demo_streamlit tuned_args [])) =
     [Call CacheData [PyFunc ''fetch'']
        [(''persist'', PyBool True), (''show_spinner'', PyBool False),
         (''hash_funcs'', PyHashFuncs 7), (''max_entries'', PyInt 100),
         (''ttl'', PyFloat 60)]]"
    by (simp add: cache_def invoke_def show_deprecation_warning_def tuned_args_def py_opt_def)
  moreover have "successor_calls
     (snd (cache demo_streamlit (tuned_args\<lparr>allow_output_mutation := True\<rparr>) [])) =
     [Call CacheResource [PyFunc ''fetch'']
        [(''show_spinner'', PyBool False), (''hash_funcs'', PyHashFuncs 7),
         (''max_entries'', PyInt 100), (''ttl'', PyFloat 60)]]"
    by (simp add: cache_def invoke_def show_deprecation_warning_def tuned_args_def py_opt_def)
  ultimately show ?thesis using c(3) c'(3) by simp
qed

text \<open>
  C3. In both call forms, \<^verbatim>\<open>func\<close> given and \<^verbatim>\<open>func=None\<close>, the facade adds
  exactly two events to the trace: first the deprecation warning with the message of
  lines 163 to 165, then the call to a successor.
\<close>

theorem cache_warns_before_forwarding:
  "(\<exists>r c. cache st (a\<lparr>func := Some f\<rparr>) tr =
            (r, tr @ [DeprecationWarning (deprecation_message (CACHE_DOCS_URL st)),
                      SuccessorCall c])) \<and>
   (\<exists>r c. cache st (a\<lparr>func := None\<rparr>) tr =
            (r, tr @ [DeprecationWarning (deprecation_message (CACHE_DOCS_URL st)),
                      SuccessorCall c]))"
  by (cases "allow_output_mutation a")
     (simp_all add: cache_resource_branch cache_data_branch)

theorem cache_warns_before_forwarding_witness:
  "(\<exists>r c. cache demo_streamlit mutable_persist_args [] =
            (r, [DeprecationWarning (deprecation_message ''https://docs.streamlit.io/caching''),
                 SuccessorCall c])) \<and>
   (\<exists>r c. cache demo_streamlit default_args [] =
            (r, [DeprecationWarning (deprecation_message ''https://docs.streamlit.io/caching''),
                 SuccessorCall c]))"
  using cache_warns_before_forwarding
          [where st = demo_streamlit and a = mutable_persist_args and f = "''fetch''"
             and tr = "[]"]
        cache_warns_before_forwarding
          [where st = demo_streamlit and a = default_args and f = "''fetch''" and tr = "[]"]
  by (simp add: mutable_persist_args_def default_args_def demo_streamlit_def)

text \<open>
  C9. \<^verbatim>\<open>suppress_st_warning\<close> does not interfere: changing it alone changes neither
  the value returned nor the trace, so neither the successor called nor its arguments.
\<close>

theorem cache_ignores_suppress_st_warning:
  "cache st (a\<lparr>suppress_st_warning := b\<rparr>) tr = cache st a tr"
  by (simp add: cache_def Let_def)

theorem cache_ignores_suppress_st_warning_witness:
  "cache demo_streamlit (default_args\<lparr>suppress_st_warning := True\<rparr>) [] =
   cache demo_streamlit default_args []"
  using cache_ignores_suppress_st_warning
          [where st = demo_streamlit and a = default_args and b = True and tr = "[]"]
  by simp

text \<open>
  C10. With \<^verbatim>\<open>allow_output_mutation\<close> true, \<^verbatim>\<open>persist\<close> has no effect: changing it
  alone leaves the returned value and the whole trace the same, and the call to
  \<^verbatim>\<open>st.cache_resource\<close> has no \<^verbatim>\<open>persist\<close> keyword. With the flag false, the call
  goes to \<^verbatim>\<open>st.cache_data\<close> and carries \<^verbatim>\<open>persist\<close> as given.
\<close>

theorem cache_persist_only_for_cache_data:
  "(allow_output_mutation a \<longrightarrow>
      cache st (a\<lparr>persist := p\<rparr>) tr = cache st a tr \<and>
      (\<exists>pos kw. successor_calls (snd (cache st a tr)) =
                   successor_calls tr @ [Call CacheResource pos kw] \<and>
                 map_of kw ''persist'' = None)) \<and>
   (\<not> allow_output_mutation a \<longrightarrow>
      (\<exists>pos kw. successor_calls (snd (cache st (a\<lparr>persist := p\<rparr>) tr)) =
                   successor_calls tr @ [Call CacheData pos kw] \<and>
                 map_of kw ''persist'' = Some (PyBool p)))"
proof (intro conjI impI)
  assume m: "allow_output_mutation a"
  then have "allow_output_mutation (a\<lparr>persist := p\<rparr>)" by simp
  then show "cache st (a\<lparr>persist := p\<rparr>) tr = cache st a tr"
    using m by (simp add: cache_resource_branch)
  show "\<exists>pos kw. successor_calls (snd (cache st a tr)) =
                   successor_calls tr @ [Call CacheResource pos kw] \<and>
                 map_of kw ''persist'' = None"
    using m by (simp add: cache_resource_branch successor_calls_append)
next
  assume "\<not> allow_output_mutation a"
  then have "\<not> allow_output_mutation (a\<lparr>persist := p\<rparr>)" by simp
  then show "\<exists>pos kw. successor_calls (snd (cache st (a\<lparr>persist := p\<rparr>) tr)) =
                   successor_calls tr @ [Call CacheData pos kw] \<and>
                 map_of kw ''persist'' = Some (PyBool p)"
    by (simp add: cache_data_branch successor_calls_append)
qed

theorem cache_persist_only_for_cache_data_witness:
  "allow_output_mutation mutable_persist_args \<and>
   cache demo_streamlit (mutable_persist_args\<lparr>persist := False\<rparr>) [] =
     cache demo_streamlit mutable_persist_args [] \<and>
   (\<exists>pos kw. successor_calls (snd (cache demo_streamlit mutable_persist_args [])) =
                [Call CacheResource pos kw] \<and>
              map_of kw ''persist'' = None) \<and>
   \<not> allow_output_mutation default_args \<and>
   (\<exists>pos kw. successor_calls (snd (cache demo_streamlit (default_args\<lparr>persist := True\<rparr>) [])) =
                [Call CacheData pos kw] \<and>
              map_of kw ''persist'' = Some (PyBool True))"
proof -
  have m: "allow_output_mutation mutable_persist_args"
    by (simp add: mutable_persist_args_def default_args_def)
  have d: "\<not> allow_output_mutation default_args"
    by (simp add: default_args_def)
  show ?thesis
    using m d
      cache_persist_only_for_cache_data
        [where a = mutable_persist_args and st = demo_streamlit and p = False and tr = "[]"]
      cache_persist_only_for_cache_data
        [where a = default_args and st = demo_streamlit and p = True and tr = "[]"]
    by simp
qed

section \<open>Properties of the cache engine\<close>

subsection \<open>The store\<close>

lemma store_get_None_iff: "store_get k s = None \<longleftrightarrow> k \<notin> key ` set s"
  by (auto simp: store_get_def find_None_iff)

lemma store_get_SomeD: "store_get k s = Some e \<Longrightarrow> e \<in> set s \<and> key e = k"
  by (auto simp: store_get_def find_Some_iff)

lemma store_get_Nil: "store_get k [] = None"
  by (simp add: store_get_def)

lemma store_get_append:
  "store_get k (xs @ ys) = (case store_get k xs of None \<Rightarrow> store_get k ys | Some e \<Rightarrow> Some e)"
  by (induction xs) (simp_all add: store_get_def)

lemma store_get_single: "store_get k [e] = (if key e = k then Some e else None)"
  by (simp add: store_get_def)

lemma store_get_remove_same: "store_get k (store_remove k s) = None"
  by (auto simp: store_get_None_iff store_remove_def)

lemma store_get_remove_other: "k' \<noteq> k \<Longrightarrow> store_get k' (store_remove k s) = store_get k' s"
  by (induction s) (simp_all add: store_get_def store_remove_def)


lemma store_remove_distinct:
  "distinct (map key s) \<Longrightarrow> x \<in> set s \<Longrightarrow> store_remove (key x) s = remove1 x s"
proof (induction s)
  case Nil
  then show ?case by simp
next
  case (Cons e es)
  show ?case
  proof (cases "e = x")
    case True
    from Cons.prems(1) have "key e \<notin> key ` set es" by simp
    then have "\<forall>y\<in>set es. key y \<noteq> key e" by (metis imageI)
    then have "filter (\<lambda>y. key y \<noteq> key e) es = es" by (simp add: filter_id_conv)
    with True show ?thesis by (simp add: store_remove_def)
  next
    case False
    with Cons.prems have x: "x \<in> set es" by simp
    from Cons.prems(1) have "key e \<notin> key ` set es" by simp
    with x have "key e \<noteq> key x" by (metis imageI)
    moreover from Cons.IH Cons.prems(1) x have "store_remove (key x) es = remove1 x es" by simp
    ultimately show ?thesis using False by (simp add: store_remove_def)
  qed
qed

lemma oldest_Nil_iff: "oldest s = None \<longleftrightarrow> s = []"
  by (cases s) (simp_all split: option.splits)

lemma oldest_least:
  "oldest s = Some x \<Longrightarrow> x \<in> set s \<and> (\<forall>e\<in>set s. created_at x \<le> created_at e)"
proof (induction s arbitrary: x)
  case Nil
  then show ?case by simp
next
  case (Cons e es)
  show ?case
  proof (cases "oldest es")
    case None
    then have "es = []" by (simp add: oldest_Nil_iff)
    with Cons.prems show ?thesis by simp
  next
    case (Some y)
    from Cons.IH [OF Some] have y: "y \<in> set es" "\<forall>e'\<in>set es. created_at y \<le> created_at e'"
      by simp_all
    show ?thesis
    proof (cases "created_at e \<le> created_at y")
      case True
      with Cons.prems Some have "x = e" by simp
      with True y show ?thesis by fastforce
    next
      case False
      with Cons.prems Some have "x = y" by simp
      with False y show ?thesis by fastforce
    qed
  qed
qed

lemma evict_oldest_subset: "set (evict_oldest s) \<subseteq> set s"
  by (auto simp: evict_oldest_def store_remove_def split: option.splits)

lemma store_get_evict_absent: "store_get k s = None \<Longrightarrow> store_get k (evict_oldest s) = None"
  using evict_oldest_subset [of s] by (auto simp: store_get_None_iff)

lemma store_get_insert_entry: "store_get (key e) (insert_entry cfg e s) = Some e"
  by (auto simp: insert_entry_def store_get_append store_get_remove_same store_get_single
      store_get_evict_absent split: option.splits)

lemma store_get_insert_entry_absent:
  "k' \<noteq> key e \<Longrightarrow> store_get k' s = None \<Longrightarrow> store_get k' (insert_entry cfg e s) = None"
  by (auto simp: insert_entry_def store_get_append store_get_remove_other store_get_single
      store_get_evict_absent split: option.splits)

subsection \<open>Eviction and access\<close>

lemma store_get_map:
  "(\<And>e. key (h e) = key e) \<Longrightarrow> store_get k (map h s) = map_option h (store_get k s)"
  by (induction s) (simp_all add: store_get_def)

lemma store_remove_map:
  "(\<And>e. key (h e) = key e) \<Longrightarrow> store_remove k (map h s) = map h (store_remove k s)"
  by (induction s) (simp_all add: store_remove_def)

lemma oldest_map:
  "(\<And>e. created_at (h e) = created_at e) \<Longrightarrow> oldest (map h s) = map_option h (oldest s)"
  by (induction s) (simp_all split: option.splits)

lemma evict_oldest_map:
  assumes "\<And>e. key (h e) = key e" and "\<And>e. created_at (h e) = created_at e"
  shows "evict_oldest (map h s) = map h (evict_oldest s)"
  using assms by (simp add: evict_oldest_def oldest_map store_remove_map split: option.splits)

lemma insert_entry_map:
  assumes "\<And>e. key (h e) = key e" and "\<And>e. created_at (h e) = created_at e"
  shows "map key (insert_entry cfg e (map h s)) = map key (insert_entry cfg e s)"
  using assms
  by (simp add: insert_entry_def store_get_map evict_oldest_map store_remove_map
      split: option.splits)

lemma store_put_ignores_last_touch:
  "map key (store_put cfg now k v (map (\<lambda>e. e\<lparr>last_touch := g e\<rparr>) s)) =
   map key (store_put cfg now k v s)"
  unfolding store_put_def by (rule insert_entry_map) simp_all

lemma store_put_full:
  assumes full: "cfg_max_entries cfg = Some (length s)"
      and new: "store_get k s = None"
      and ne: "s \<noteq> []"
      and dist: "distinct (map key s)"
  shows "\<exists>x. oldest s = Some x \<and> x \<in> set s \<and> (\<forall>e\<in>set s. created_at x \<le> created_at e) \<and>
             store_put cfg now k v s = remove1 x s @ [new_entry now k v]"
proof -
  from ne obtain x where x: "oldest s = Some x"
    using oldest_Nil_iff [of s] by (cases "oldest s") simp_all
  from oldest_least [OF x] have least: "x \<in> set s" "\<forall>e\<in>set s. created_at x \<le> created_at e"
    by simp_all
  have "evict_oldest s = remove1 x s"
    using x store_remove_distinct [OF dist least(1)] by (simp add: evict_oldest_def)
  moreover have "store_get (key (new_entry now k v)) s = None"
    using new by (simp add: new_entry_def)
  ultimately have "store_put cfg now k v s = remove1 x s @ [new_entry now k v]"
    using full by (simp add: store_put_def insert_entry_def)
  with x least show ?thesis by blast
qed

lemma cache_get_no_ttl:
  assumes "cfg_ttl (config c) = None"
  shows "config (snd (cache_get now k c)) = config c \<and>
         map key (entries (snd (cache_get now k c))) = map key (entries c) \<and>
         map created_at (entries (snd (cache_get now k c))) = map created_at (entries c)"
  using assms
  by (auto simp: cache_get_def expired_def touch_def split: option.splits)

lemma reads_no_ttl:
  "cfg_ttl (config c) = None \<Longrightarrow>
   config (reads rs c) = config c \<and>
   map key (entries (reads rs c)) = map key (entries c) \<and>
   map created_at (entries (reads rs c)) = map created_at (entries c)"
proof (induction rs arbitrary: c)
  case Nil
  then show ?case by simp
next
  case (Cons r rs)
  obtain now k where r: "r = (now, k)" by (cases r)
  from cache_get_no_ttl [OF Cons.prems, of now k]
  have step: "config (snd (cache_get now k c)) = config c"
    "map key (entries (snd (cache_get now k c))) = map key (entries c)"
    "map created_at (entries (snd (cache_get now k c))) = map created_at (entries c)"
    by simp_all
  from step(1) Cons.prems have "cfg_ttl (config (snd (cache_get now k c))) = None" by simp
  from Cons.IH [OF this] step r show ?case by simp
qed

lemma put_first:
  "store_put cfg now k v [] = [new_entry now k v]"
  by (simp add: store_put_def insert_entry_def store_get_def evict_oldest_def)

lemma put_second:
  assumes "map key s = [k1]" and "k2 \<noteq> k1" and "cfg_max_entries cfg = Some 2"
  shows "store_put cfg now k2 v s = s @ [new_entry now k2 v]"
proof -
  from assms(1) obtain e1 where s: "s = [e1]" "key e1 = k1" by auto
  with assms(2,3) show ?thesis
    by (simp add: store_put_def insert_entry_def store_get_def new_entry_def)
qed

lemma put_third:
  assumes "map key s = [k1, k2]" and "map created_at s = [t1, t2]" and "t1 \<le> t2"
      and "k1 \<noteq> k2" and "k3 \<noteq> k1" and "k3 \<noteq> k2" and "cfg_max_entries cfg = Some 2"
  shows "map key (store_put cfg now k3 v s) = [k2, k3]"
proof -
  from assms(1) obtain e1 e2 where s: "s = [e1, e2]" "key e1 = k1" "key e2 = k2" by auto
  with assms(2) have t: "created_at e1 = t1" "created_at e2 = t2" by simp_all
  from s t assms(3-7) show ?thesis
    by (simp add: store_put_def insert_entry_def store_get_def new_entry_def
        evict_oldest_def store_remove_def)
qed

lemma fifo_scenario:
  assumes cfg: "cfg_max_entries (config c) = Some 2" "cfg_ttl (config c) = None"
      and empty: "entries c = []"
      and keys: "k1 \<noteq> k2" "k3 \<noteq> k1" "k3 \<noteq> k2"
      and time: "t1 \<le> t2"
  shows "map key (entries
           (reads r3 (cache_put t3 k3 v3
             (reads r2 (cache_put t2 k2 v2
               (reads r1 (cache_put t1 k1 v1 c))))))) = [k2, k3]"
proof -
  define c1 where "c1 = reads r1 (cache_put t1 k1 v1 c)"
  define c2 where "c2 = reads r2 (cache_put t2 k2 v2 c1)"
  define c3 where "c3 = cache_put t3 k3 v3 c2"
  have p1: "cfg_ttl (config (cache_put t1 k1 v1 c)) = None" "config (cache_put t1 k1 v1 c) = config c"
    using cfg by (simp_all add: cache_put_def)
  have e1: "entries (cache_put t1 k1 v1 c) = [new_entry t1 k1 v1]"
    using empty by (simp add: cache_put_def put_first)
  from reads_no_ttl [OF p1(1), of r1] p1(2) e1
  have c1: "config c1 = config c" "map key (entries c1) = [k1]" "map created_at (entries c1) = [t1]"
    by (simp_all add: c1_def new_entry_def)
  have e2: "entries (cache_put t2 k2 v2 c1) = entries c1 @ [new_entry t2 k2 v2]"
    using put_second [OF c1(2), of k2 "config c1"] keys(1) cfg(1) c1(1)
    by (simp add: cache_put_def)
  have p2: "cfg_ttl (config (cache_put t2 k2 v2 c1)) = None" "config (cache_put t2 k2 v2 c1) = config c"
    using cfg c1(1) by (simp_all add: cache_put_def)
  from reads_no_ttl [OF p2(1), of r2] p2(2) e2 c1
  have c2: "config c2 = config c" "map key (entries c2) = [k1, k2]"
    "map created_at (entries c2) = [t1, t2]"
    by (simp_all add: c2_def new_entry_def)
  have e3: "map key (entries c3) = [k2, k3]"
    using put_third [OF c2(2) c2(3) time keys(1) keys(2) keys(3), of "config c2"] cfg(1) c2(1)
    by (simp add: c3_def cache_put_def)
  have p3: "cfg_ttl (config c3) = None"
    using cfg c2(1) by (simp add: c3_def cache_put_def)
  from reads_no_ttl [OF p3, of r3] e3 show ?thesis
    by (simp add: c3_def c2_def c1_def)
qed

subsection \<open>The invariants of the store\<close>

text \<open>
  The two invariants of section 3 hold after every insertion: a key has at most one entry,
  and a store within its bound stays within it.
\<close>

lemma keys_store_remove: "set (map key (store_remove k s)) = set (map key s) - {k}"
  by (auto simp: store_remove_def)

lemma distinct_store_remove: "distinct (map key s) \<Longrightarrow> distinct (map key (store_remove k s))"
  by (simp add: store_remove_def distinct_map_filter)

lemma distinct_evict_oldest: "distinct (map key s) \<Longrightarrow> distinct (map key (evict_oldest s))"
  by (simp add: evict_oldest_def distinct_store_remove split: option.splits)

lemma distinct_insert_entry:
  assumes "distinct (map key s)"
  shows "distinct (map key (insert_entry cfg e s))"
proof (cases "store_get (key e) s")
  case None
  then have new: "key e \<notin> key ` set s"
    by (simp add: store_get_None_iff)
  with evict_oldest_subset [of s] have "key e \<notin> key ` set (evict_oldest s)"
    by blast
  with new None assms show ?thesis
    by (simp add: insert_entry_def distinct_evict_oldest)
next
  case (Some old)
  have "key e \<notin> set (map key (store_remove (key e) s))"
    by (simp only: keys_store_remove) simp
  with Some assms show ?thesis
    by (simp add: insert_entry_def distinct_store_remove)
qed

lemma length_store_remove_present:
  "x \<in> set s \<Longrightarrow> length (store_remove (key x) s) < length s"
  unfolding store_remove_def
  by (metis (mono_tags, lifting) length_filter_less)

lemma length_insert_entry:
  assumes "cfg_max_entries cfg = Some m" and "0 < m" and "length s \<le> m"
  shows "length (insert_entry cfg e s) \<le> m"
proof (cases "store_get (key e) s")
  case None
  show ?thesis
  proof (cases "length s = m")
    case True
    with assms obtain x where x: "oldest s = Some x"
      using oldest_Nil_iff [of s] by (cases "oldest s") auto
    then have "x \<in> set s" by (simp add: oldest_least)
    from length_store_remove_present [OF this] x None True assms show ?thesis
      by (simp add: insert_entry_def evict_oldest_def)
  next
    case False
    with None assms show ?thesis by (simp add: insert_entry_def)
  qed
next
  case (Some old)
  then have "old \<in> set s" "key old = key e" by (simp_all add: store_get_SomeD)
  with length_store_remove_present [of old s] Some assms show ?thesis
    by (simp add: insert_entry_def)
qed

subsection \<open>The paths of a call\<close>

lemma cached_call_miss:
  assumes "derive (cfg_hash_funcs (config c)) a = Inr k"
      and "store_get k (entries c) = None"
      and "load_fresh now k c = None"
  shows "cached_call derive f now a c =
           (case f a of
              Inl err \<Rightarrow> (Inl (ComputationError err), c, [a])
            | Inr v \<Rightarrow> (Inr v, save k (new_entry now k v) (cache_put now k v c), [a]))"
  using assms by (simp add: cached_call_def cache_get_def)

lemma load_fresh_entries_upd: "load_fresh now k (c\<lparr>entries := s\<rparr>) = load_fresh now k c"
  by (simp add: load_fresh_def load_def expired_def split: option.splits)

lemma cached_call_stale:
  assumes "derive (cfg_hash_funcs (config c)) a = Inr k"
      and "store_get k (entries c) = Some e"
      and "expired (config c) e now"
      and "load_fresh now k c = None"
  shows "cached_call derive f now a c =
           (case f a of
              Inl err \<Rightarrow> (Inl (ComputationError err), c\<lparr>entries := store_remove k (entries c)\<rparr>, [a])
            | Inr v \<Rightarrow>
                (Inr v,
                 save k (new_entry now k v)
                   (cache_put now k v (c\<lparr>entries := store_remove k (entries c)\<rparr>)),
                 [a]))"
  using assms by (simp add: cached_call_def cache_get_def load_fresh_entries_upd)

lemma cached_call_hit:
  assumes "derive (cfg_hash_funcs (config c)) a = Inr k"
      and "store_get k (entries c) = Some e"
      and "\<not> expired (config c) e now"
  shows "cached_call derive f now a c =
           (Inr (cached_value e),
            (if records_touch c then c\<lparr>entries := touch now k (entries c)\<rparr> else c), [])"
  using assms by (simp add: cached_call_def cache_get_def)

lemma load_fresh_None: "load k c = None \<Longrightarrow> load_fresh now k c = None"
  by (simp add: load_fresh_def)

lemma map_key_touch: "map key (touch now k s) = map key s"
  by (induction s) (simp_all add: touch_def)

lemma store_get_touch_None:
  "store_get k' (touch now k s) = None \<longleftrightarrow> store_get k' s = None"
proof -
  have "store_get k' xs = None \<longleftrightarrow> k' \<notin> set (map key xs)" for xs :: "('a, 'b) cache_entry list"
    by (simp add: store_get_None_iff)
  then show ?thesis by (simp only: map_key_touch)
qed

lemma save_fields:
  "config (save k e c) = config c" "entries (save k e c) = entries c"
  "records_touch (save k e c) = records_touch c"
  by (simp_all add: save_def)

lemma load_save_other:
  "key e = k \<Longrightarrow> k' \<noteq> k \<Longrightarrow> load k' (save k e c) = load k' c"
  by (auto simp: load_def save_def store_get_append store_get_remove_other store_get_single
      split: option.splits)

lemma cache_get_cases:
  "cache_get now k c = (None, c) \<and> store_get k (entries c) = None \<or>
   (\<exists>e. store_get k (entries c) = Some e \<and> expired (config c) e now \<and>
        cache_get now k c = (None, c\<lparr>entries := store_remove k (entries c)\<rparr>)) \<or>
   (\<exists>e. store_get k (entries c) = Some e \<and> \<not> expired (config c) e now \<and>
        fst (cache_get now k c) = Some (if records_touch c then e\<lparr>last_touch := now\<rparr> else e))"
  by (cases "store_get k (entries c)") (simp_all add: cache_get_def)

lemma cache_get_fresh:
  assumes "cfg_ttl (config c) = Some d" and "cache_get now k c = (Some e, c')"
  shows "now - created_at e < d"
  using assms cache_get_cases [of now k c]
  by (auto simp: expired_def is_expired_def split: if_splits)

lemma cache_get_expired:
  assumes "cfg_ttl (config c) = Some d" and "store_get k (entries c) = Some e"
      and "d \<le> now - created_at e"
  shows "cache_get now k c = (None, c\<lparr>entries := store_remove k (entries c)\<rparr>)"
  using assms by (simp add: cache_get_def expired_def is_expired_def)

lemma load_fresh_expired:
  assumes "cfg_ttl (config c) = Some d" and "\<forall>e. load k c = Some e \<longrightarrow> d \<le> now - created_at e"
  shows "load_fresh now k c = None"
  using assms by (simp add: load_fresh_def expired_def is_expired_def split: option.splits)

lemma store_get_after_put:
  "store_get k (entries (save k (new_entry now k v) (cache_put now k v c))) =
     Some (new_entry now k v)"
  using store_get_insert_entry [of "new_entry now k v" "config c" "entries c"]
  by (simp add: save_fields cache_put_def store_put_def new_entry_def)

lemma recomputed_when_expired:
  assumes ttl: "cfg_ttl (config c) = Some d"
      and k: "derive (cfg_hash_funcs (config c)) a = Inr k"
      and mem: "\<forall>e. store_get k (entries c) = Some e \<longrightarrow> d \<le> now - created_at e"
      and dsk: "\<forall>e. load k c = Some e \<longrightarrow> d \<le> now - created_at e"
  shows "\<exists>c'. cached_call derive f now a c =
                 ((case f a of Inl err \<Rightarrow> Inl (ComputationError err) | Inr v \<Rightarrow> Inr v), c', [a]) \<and>
              (\<forall>v. f a = Inr v \<longrightarrow> store_get k (entries c') = Some (new_entry now k v))"
proof -
  have lf: "load_fresh now k c = None"
    by (rule load_fresh_expired [OF ttl dsk])
  show ?thesis
  proof (cases "store_get k (entries c)")
    case None
    from cached_call_miss [where derive = derive and f = f, OF k None lf]
    show ?thesis by (auto simp: store_get_after_put split: sum.splits)
  next
    case (Some e)
    with mem ttl have "expired (config c) e now"
      by (simp add: expired_def is_expired_def)
    from cached_call_stale [where derive = derive and f = f, OF k Some this lf]
    show ?thesis by (auto simp: store_get_after_put split: sum.splits)
  qed
qed

lemma promoted_keeps_created_at:
  assumes ttl: "cfg_ttl (config c) = Some d"
      and lf: "load_fresh now k c = Some e"
  shows "now - created_at e < d \<and> store_get k (entries (promote e c)) = Some e \<and>
         (\<forall>later. d \<le> later - created_at e \<longrightarrow> fst (cache_get later k (promote e c)) = None)"
proof -
  from lf have ld: "load k c = Some e" and live: "\<not> expired (config c) e now"
    by (auto simp: load_fresh_def split: option.splits if_splits)
  from ld have "store_get k (disk c) = Some e"
    by (auto simp: load_def split: if_splits)
  then have ke: "key e = k"
    by (simp add: store_get_SomeD)
  from live ttl have age: "now - created_at e < d"
    by (simp add: expired_def is_expired_def)
  have got: "store_get k (entries (promote e c)) = Some e"
    using store_get_insert_entry [of e "config c" "entries c"] ke by (simp add: promote_def)
  have cfg: "cfg_ttl (config (promote e c)) = Some d"
    using ttl by (simp add: promote_def)
  have "fst (cache_get later k (promote e c)) = None" if "d \<le> later - created_at e" for later
    using cache_get_expired [OF cfg got that] by simp
  with age got show ?thesis by blast
qed

lemma cache_get_miss_form:
  "fst (cache_get now k c) = None \<Longrightarrow> \<exists>s. cache_get now k c = (None, c\<lparr>entries := s\<rparr>)"
proof (cases "store_get k (entries c)")
  case None
  then have "cache_get now k c = (None, c\<lparr>entries := entries c\<rparr>)"
    by (simp add: cache_get_def)
  then show ?thesis by blast
next
  case (Some e)
  assume "fst (cache_get now k c) = None"
  with Some have "cache_get now k c = (None, c\<lparr>entries := store_remove k (entries c)\<rparr>)"
    by (simp add: cache_get_def split: if_splits)
  then show ?thesis by blast
qed

lemma cached_call_promotes:
  fixes f :: "'a \<Rightarrow> 'x + 'v" and c :: "('k, 'v, 'h) cache_instance"
  assumes ttl: "cfg_ttl (config c) = Some d"
      and k: "derive (cfg_hash_funcs (config c)) a = Inr k"
      and miss: "fst (cache_get now k c) = None"
      and lf: "load_fresh now k c = Some e"
  shows "\<exists>c'. cached_call derive f now a c = (Inr (cached_value e), c', []) \<and>
              store_get k (entries c') = Some e \<and>
              now - created_at e < d \<and>
              (\<forall>later (g :: 'a \<Rightarrow> 'x + 'v). d \<le> later - created_at e \<longrightarrow>
                 fst (cache_get later k c') = None \<and>
                 snd (snd (cached_call derive g later a c')) = [a])"
proof -
  from cache_get_miss_form [OF miss] obtain s where g: "cache_get now k c = (None, c\<lparr>entries := s\<rparr>)"
    by blast
  let ?c1 = "c\<lparr>entries := s\<rparr>"
  let ?c' = "promote e ?c1"
  have lf1: "load_fresh now k ?c1 = Some e"
    using lf by (simp add: load_fresh_entries_upd)
  have call: "cached_call derive f now a c = (Inr (cached_value e), ?c', [])"
    using k g lf1 by (simp add: cached_call_def)
  have ttl1: "cfg_ttl (config ?c1) = Some d"
    using ttl by simp
  from promoted_keeps_created_at [OF ttl1 lf1]
  have young: "now - created_at e < d" and got: "store_get k (entries ?c') = Some e"
    by simp_all
  have cfg': "config ?c' = config c"
    by (simp add: promote_def)
  have ttl': "cfg_ttl (config ?c') = Some d"
    using ttl by (simp add: cfg')
  have k': "derive (cfg_hash_funcs (config ?c')) a = Inr k"
    using k by (simp add: cfg')
  from lf have ld: "load k c = Some e"
    by (auto simp: load_fresh_def split: option.splits if_splits)
  have "load k ?c' = load k c"
    by (simp add: load_def promote_def)
  with ld have ld': "load k ?c' = Some e"
    by simp
  have later: "fst (cache_get later k ?c') = None \<and>
               snd (snd (cached_call derive g later a ?c')) = [a]"
    if old: "d \<le> later - created_at e" for later and g :: "'a \<Rightarrow> 'x + 'v"
  proof -
    have ex: "expired (config ?c') e later"
      using ttl' old by (simp add: expired_def is_expired_def)
    have "\<forall>x. load k ?c' = Some x \<longrightarrow> d \<le> later - created_at x"
      using ld' old by simp
    from load_fresh_expired [OF ttl' this] have lf': "load_fresh later k ?c' = None" .
    from cached_call_stale [where derive = derive and f = g, OF k' got ex lf']
    have "snd (snd (cached_call derive g later a ?c')) = [a]"
      by (simp split: sum.splits)
    moreover from cache_get_expired [OF ttl' got old]
    have "fst (cache_get later k ?c') = None"
      by simp
    ultimately show ?thesis by simp
  qed
  from call got young later show ?thesis
    by blast
qed

lemmas engine_defs =
  cached_call_def cache_get_def cache_put_def load_fresh_def load_def save_def promote_def
  store_get_def store_put_def store_remove_def insert_entry_def evict_oldest_def new_entry_def
  expired_def is_expired_def touch_def

lemmas demo_defs =
  demo_cache_def demo_config_def by_url_def fetch_def offline_def ttl_cache_def
  warmed_cache_def persisted_cache_def two_entries_def first_call_def second_call_def
  third_call_def

lemma warmed_cache_eq:
  "warmed_cache =
     \<lparr>config = demo_config\<lparr>cfg_ttl := Some 10\<rparr>, entries = [new_entry 0 ''A'' 1], disk = [],
      disk_writable = True, persist_errors = [], records_touch = True\<rparr>"
  by (simp add: engine_defs demo_defs)

subsection \<open>The claims on the engine\<close>

text \<open>
  C4. Memoization. Take a callable that returns \<open>v\<close> on \<open>a\<close>, and a cache instance that
  holds nothing for the key of \<open>a\<close> nor for the key of \<open>b\<close>, in memory or on the backing
  store. A first call with \<open>a\<close> runs the callable once, on \<open>a\<close>. A second call with
  \<open>a\<close>, made before the ttl (if one is set) has elapsed since the first, returns the same
  value and does not run the callable. A call with \<open>b\<close>, whose key differs, runs the
  callable again.
\<close>

theorem memoization:
  assumes k: "derive (cfg_hash_funcs (config c)) a = Inr k"
      and k': "derive (cfg_hash_funcs (config c)) b = Inr k'"
      and diff: "k' \<noteq> k"
      and v: "f a = Inr v"
      and miss_a: "store_get k (entries c) = None" "load k c = None"
      and miss_b: "store_get k' (entries c) = None" "load k' c = None"
      and fresh: "case cfg_ttl (config c) of None \<Rightarrow> True | Some d \<Rightarrow> t2 - t1 < d"
      and first: "cached_call derive f t1 a c = (r1, c1, n1)"
      and second: "cached_call derive f t2 a c1 = (r2, c2, n2)"
      and third: "cached_call derive f t3 b c2 = (r3, c3, n3)"
  shows "r1 = Inr v \<and> n1 = [a] \<and> r2 = Inr v \<and> n2 = [] \<and> n3 = [b] \<and>
         r3 = (case f b of Inl err \<Rightarrow> Inl (ComputationError err) | Inr w \<Rightarrow> Inr w)"
proof -
  let ?e = "new_entry t1 k v"
  from cached_call_miss
         [where derive = derive and f = f and now = t1,
          OF k miss_a(1) load_fresh_None [OF miss_a(2)]]
       v first
  have one: "r1 = Inr v" "n1 = [a]" "c1 = save k ?e (cache_put t1 k v c)"
    by simp_all
  have cfg1: "config c1 = config c"
    by (simp add: one(3) save_fields cache_put_def)
  have ent1: "entries c1 = store_put (config c) t1 k v (entries c)"
    by (simp add: one(3) save_fields cache_put_def)
  have got: "store_get k (entries c1) = Some ?e"
    using store_get_insert_entry [of ?e "config c" "entries c"]
    by (simp add: ent1 store_put_def new_entry_def)
  have live: "\<not> expired (config c1) ?e t2"
    using fresh by (simp add: cfg1 expired_def is_expired_def new_entry_def split: option.splits)
  have k1: "derive (cfg_hash_funcs (config c1)) a = Inr k"
    using k by (simp add: cfg1)
  from cached_call_hit [where derive = derive and f = f, OF k1 got live] second
  have two: "r2 = Inr v" "n2 = []"
    "c2 = (if records_touch c1 then c1\<lparr>entries := touch t2 k (entries c1)\<rparr> else c1)"
    by (simp_all add: new_entry_def)
  have cfg2: "config c2 = config c"
    by (simp add: two(3) cfg1)
  have absent1: "store_get k' (entries c1) = None"
    using store_get_insert_entry_absent [of k' ?e "entries c" "config c"] diff miss_b(1)
    by (simp add: ent1 store_put_def new_entry_def)
  have absent2: "store_get k' (entries c2) = None"
    using absent1 by (simp add: two(3) store_get_touch_None)
  have "load k' (cache_put t1 k v c) = load k' c"
    by (simp add: load_def cache_put_def)
  with miss_b(2) have "load k' (cache_put t1 k v c) = None"
    by simp
  moreover have "key ?e = k"
    by (simp add: new_entry_def)
  ultimately have "load k' c1 = None"
    using load_save_other [of ?e k k' "cache_put t1 k v c"] diff
    by (simp add: one(3))
  moreover have "load k' c2 = load k' c1"
    by (simp add: two(3) load_def)
  ultimately have disk2: "load k' c2 = None"
    by simp
  have k2: "derive (cfg_hash_funcs (config c2)) b = Inr k'"
    using k' by (simp add: cfg2)
  from cached_call_miss
         [where derive = derive and f = f and now = t3,
          OF k2 absent2 load_fresh_None [OF disk2]]
       third
  have "n3 = [b]" "r3 = (case f b of Inl err \<Rightarrow> Inl (ComputationError err) | Inr w \<Rightarrow> Inr w)"
    by (simp_all split: sum.splits)
  with one two show ?thesis by simp
qed

theorem memoization_witness:
  "fst first_call = Inr 1 \<and> snd (snd first_call) = [''A''] \<and>
   fst second_call = Inr 1 \<and> snd (snd second_call) = [] \<and>
   snd (snd third_call) = [''BB''] \<and> fst third_call = Inr 2"
  using memoization
    [where derive = by_url and f = fetch and c = demo_cache and a = "''A''" and b = "''BB''"
       and k = "''A''" and k' = "''BB''" and v = 1 and ?t1.0 = 0 and ?t2.0 = 5 and ?t3.0 = 6
       and ?r1.0 = "fst first_call" and ?c1.0 = "fst (snd first_call)"
       and ?n1.0 = "snd (snd first_call)"
       and ?r2.0 = "fst second_call" and ?c2.0 = "fst (snd second_call)"
       and ?n2.0 = "snd (snd second_call)"
       and ?r3.0 = "fst third_call" and ?c3.0 = "fst (snd third_call)"
       and ?n3.0 = "snd (snd third_call)"]
  by (simp add: engine_defs demo_defs)

text \<open>
  C5. FIFO eviction. When \<^verbatim>\<open>put\<close> meets a full store and a new key, the entry removed
  is the one with the least \<open>created_at\<close>, the new entry goes to the end, and rewriting
  every \<open>last_touch\<close> beforehand changes nothing in the keys that remain. With
  \<open>max_entries = 2\<close> and no ttl, putting \<open>k1\<close>, \<open>k2\<close>, \<open>k3\<close> in this order into an empty
  store leaves exactly \<open>k2\<close> and \<open>k3\<close>, whatever reads come in between and after.
\<close>

theorem fifo_eviction:
  "(cfg_max_entries cfg = Some (length s) \<and> store_get k s = None \<and> s \<noteq> [] \<and>
    distinct (map key s) \<longrightarrow>
      (\<exists>x. oldest s = Some x \<and> x \<in> set s \<and> (\<forall>e\<in>set s. created_at x \<le> created_at e) \<and>
           store_put cfg now k v s = remove1 x s @ [new_entry now k v]) \<and>
      map key (store_put cfg now k v (map (\<lambda>e. e\<lparr>last_touch := g e\<rparr>) s)) =
        map key (store_put cfg now k v s)) \<and>
   (cfg_max_entries (config c) = Some 2 \<and> cfg_ttl (config c) = None \<and> entries c = [] \<and>
    k1 \<noteq> k2 \<and> k3 \<noteq> k1 \<and> k3 \<noteq> k2 \<and> t1 \<le> t2 \<longrightarrow>
      map key (entries
        (reads r3 (cache_put t3 k3 v3
          (reads r2 (cache_put t2 k2 v2
            (reads r1 (cache_put t1 k1 v1 c))))))) = [k2, k3])"
proof (intro conjI impI)
  assume "cfg_max_entries cfg = Some (length s) \<and> store_get k s = None \<and> s \<noteq> [] \<and>
    distinct (map key s)"
  then show "\<exists>x. oldest s = Some x \<and> x \<in> set s \<and> (\<forall>e\<in>set s. created_at x \<le> created_at e) \<and>
           store_put cfg now k v s = remove1 x s @ [new_entry now k v]"
    using store_put_full [of cfg s k now v] by blast
next
  show "map key (store_put cfg now k v (map (\<lambda>e. e\<lparr>last_touch := g e\<rparr>) s)) =
        map key (store_put cfg now k v s)"
    by (rule store_put_ignores_last_touch)
next
  assume "cfg_max_entries (config c) = Some 2 \<and> cfg_ttl (config c) = None \<and> entries c = [] \<and>
    k1 \<noteq> k2 \<and> k3 \<noteq> k1 \<and> k3 \<noteq> k2 \<and> t1 \<le> t2"
  then show "map key (entries
        (reads r3 (cache_put t3 k3 v3
          (reads r2 (cache_put t2 k2 v2
            (reads r1 (cache_put t1 k1 v1 c))))))) = [k2, k3]"
    using fifo_scenario [of c k1 k2 k3 t1 t2] by blast
qed

theorem fifo_eviction_witness:
  "store_put demo_config 6 ''k3'' 30 two_entries =
     [new_entry 2 ''k2'' 20, new_entry 6 ''k3'' 30] \<and>
   map key (store_put demo_config 6 ''k3'' 30 (map (\<lambda>e. e\<lparr>last_touch := 5\<rparr>) two_entries)) =
     [''k2'', ''k3''] \<and>
   map key (entries
     (reads [(9, ''k2'')] (cache_put 6 ''k3'' 30
       (reads [(4, ''k1''), (5, ''k1'')] (cache_put 2 ''k2'' 20
         (reads [(1, ''k1'')] (cache_put 1 ''k1'' 10 demo_cache)))))))
     = [''k2'', ''k3'']"
  using fifo_eviction
    [where cfg = demo_config and s = two_entries and k = "''k3''" and now = 6 and v = 30
       and g = "\<lambda>e. 5" and c = demo_cache
       and ?k1.0 = "''k1''" and ?k2.0 = "''k2''" and ?k3.0 = "''k3''"
       and ?t1.0 = 1 and ?t2.0 = 2 and ?t3.0 = 6
       and ?v1.0 = 10 and ?v2.0 = 20 and ?v3.0 = 30
       and ?r1.0 = "[(1, ''k1'')]" and ?r2.0 = "[(4, ''k1''), (5, ''k1'')]"
       and ?r3.0 = "[(9, ''k2'')]"]
  by (simp add: engine_defs demo_defs)

text \<open>
  C6. TTL expiry. With a ttl \<open>d\<close>: an entry that a get returns is younger than \<open>d\<close>; an
  entry of age \<open>d\<close> or more is a miss and is gone from the store after the get; when all that
  is held for the key, in memory and on the backing store, has that age, the call runs the
  callable and a value it returns is stored with the time of the call. An entry promoted
  from the backing store keeps the \<open>created_at\<close> it was saved with. A call that misses in
  memory and is served from the backing store returns the persisted value without running
  the callable, the entry it was served from is younger than \<open>d\<close>, it sits in the store with
  the \<open>created_at\<close> it was saved with, and every later get made when that age is \<open>d\<close> or
  more is a miss and every such call runs the callable.
\<close>

theorem ttl_expiry:
  fixes f :: "'a \<Rightarrow> 'x + 'v" and c :: "('k, 'v, 'h) cache_instance"
  assumes "cfg_ttl (config c) = Some d"
  shows "(\<forall>e c'. cache_get now k c = (Some e, c') \<longrightarrow> now - created_at e < d) \<and>
         (\<forall>e. store_get k (entries c) = Some e \<and> d \<le> now - created_at e \<longrightarrow>
              fst (cache_get now k c) = None \<and>
              store_get k (entries (snd (cache_get now k c))) = None) \<and>
         (derive (cfg_hash_funcs (config c)) a = Inr k \<and>
          (\<forall>e. store_get k (entries c) = Some e \<longrightarrow> d \<le> now - created_at e) \<and>
          (\<forall>e. load k c = Some e \<longrightarrow> d \<le> now - created_at e) \<longrightarrow>
            (\<exists>c'. cached_call derive f now a c =
                    ((case f a of Inl err \<Rightarrow> Inl (ComputationError err) | Inr v \<Rightarrow> Inr v),
                     c', [a]) \<and>
                  (\<forall>v. f a = Inr v \<longrightarrow> store_get k (entries c') = Some (new_entry now k v)))) \<and>
         (\<forall>e. load_fresh now k c = Some e \<longrightarrow>
              now - created_at e < d \<and>
              store_get k (entries (promote e c)) = Some e \<and>
              (\<forall>later. d \<le> later - created_at e \<longrightarrow>
                 fst (cache_get later k (promote e c)) = None)) \<and>
         (\<forall>e. derive (cfg_hash_funcs (config c)) a = Inr k \<and>
              fst (cache_get now k c) = None \<and> load_fresh now k c = Some e \<longrightarrow>
              (\<exists>c'. cached_call derive f now a c = (Inr (cached_value e), c', []) \<and>
                    store_get k (entries c') = Some e \<and>
                    now - created_at e < d \<and>
                    (\<forall>later (g :: 'a \<Rightarrow> 'x + 'v). d \<le> later - created_at e \<longrightarrow>
                       fst (cache_get later k c') = None \<and>
                       snd (snd (cached_call derive g later a c')) = [a])))"
proof (intro conjI allI impI)
  fix e c'
  assume "cache_get now k c = (Some e, c')"
  with assms show "now - created_at e < d"
    by (rule cache_get_fresh)
next
  fix e
  assume "store_get k (entries c) = Some e \<and> d \<le> now - created_at e"
  then have g: "cache_get now k c = (None, c\<lparr>entries := store_remove k (entries c)\<rparr>)"
    using cache_get_expired [OF assms, of k e now] by blast
  then show "fst (cache_get now k c) = None"
    by simp
  from g show "store_get k (entries (snd (cache_get now k c))) = None"
    by (simp add: store_get_remove_same)
next
  assume "derive (cfg_hash_funcs (config c)) a = Inr k \<and>
          (\<forall>e. store_get k (entries c) = Some e \<longrightarrow> d \<le> now - created_at e) \<and>
          (\<forall>e. load k c = Some e \<longrightarrow> d \<le> now - created_at e)"
  then show "\<exists>c'. cached_call derive f now a c =
                    ((case f a of Inl err \<Rightarrow> Inl (ComputationError err) | Inr v \<Rightarrow> Inr v),
                     c', [a]) \<and>
                  (\<forall>v. f a = Inr v \<longrightarrow> store_get k (entries c') = Some (new_entry now k v))"
    using recomputed_when_expired [where derive = derive and f = f, OF assms, of a k now]
    by blast
next
  fix e
  assume lf: "load_fresh now k c = Some e"
  from promoted_keeps_created_at [OF assms lf]
  show "now - created_at e < d" and "store_get k (entries (promote e c)) = Some e"
    by simp_all
  fix later
  assume "d \<le> later - created_at e"
  with promoted_keeps_created_at [OF assms lf]
  show "fst (cache_get later k (promote e c)) = None"
    by blast
next
  fix e
  assume "derive (cfg_hash_funcs (config c)) a = Inr k \<and>
          fst (cache_get now k c) = None \<and> load_fresh now k c = Some e"
  then show "\<exists>c'. cached_call derive f now a c = (Inr (cached_value e), c', []) \<and>
                    store_get k (entries c') = Some e \<and>
                    now - created_at e < d \<and>
                    (\<forall>later (g :: 'a \<Rightarrow> 'x + 'v). d \<le> later - created_at e \<longrightarrow>
                       fst (cache_get later k c') = None \<and>
                       snd (snd (cached_call derive g later a c')) = [a])"
    using cached_call_promotes [where derive = derive and f = f, OF assms, of a k now e]
    by blast
qed

theorem ttl_expiry_witness:
  "cache_get 5 ''A'' warmed_cache =
     (Some (new_entry 0 ''A'' 1\<lparr>last_touch := 5\<rparr>),
      warmed_cache\<lparr>entries := [new_entry 0 ''A'' 1\<lparr>last_touch := 5\<rparr>]\<rparr>) \<and>
   5 - created_at (new_entry 0 ''A'' (1::nat)\<lparr>last_touch := 5\<rparr>) < (10::int) \<and>
   fst (cache_get 20 ''A'' warmed_cache) = None \<and>
   store_get ''A'' (entries (snd (cache_get 20 ''A'' warmed_cache))) = None \<and>
   (\<exists>c'. cached_call by_url fetch 20 ''A'' warmed_cache = (Inr 1, c', [''A'']) \<and>
         store_get ''A'' (entries c') = Some (new_entry 20 ''A'' 1)) \<and>
   load_fresh 5 ''A'' persisted_cache = Some (new_entry 0 ''A'' 1) \<and>
   fst (cache_get 20 ''A'' (promote (new_entry 0 ''A'' 1) persisted_cache)) = None \<and>
   (\<exists>c'. cached_call by_url fetch 20 ''A'' persisted_cache = (Inr 1, c', [''A''])) \<and>
   (\<exists>c'. cached_call by_url fetch 5 ''A'' persisted_cache = (Inr 1, c', []) \<and>
         store_get ''A'' (entries c') = Some (new_entry 0 ''A'' 1) \<and>
         fst (cache_get 12 ''A'' c') = None \<and>
         snd (snd (cached_call by_url fetch 12 ''A'' c')) = [''A''])"
proof -
  have ttl_w: "cfg_ttl (config warmed_cache) = Some 10"
    by (simp add: warmed_cache_eq demo_config_def)
  have ttl_p: "cfg_ttl (config persisted_cache) = Some 10"
    by (simp add: persisted_cache_def demo_config_def)
  have held: "store_get ''A'' (entries warmed_cache) = Some (new_entry 0 ''A'' 1)"
    by (simp add: warmed_cache_eq store_get_def new_entry_def)
  have old: "(10::int) \<le> 20 - created_at (new_entry 0 ''A'' (1::nat))"
    by (simp add: new_entry_def)
  have key_w: "by_url (cfg_hash_funcs (config warmed_cache)) ''A'' = Inr ''A''"
    and key_p: "by_url (cfg_hash_funcs (config persisted_cache)) ''A'' = Inr ''A''"
    by (simp_all add: by_url_def)
  have no_disk: "load ''A'' warmed_cache = None"
    by (simp add: warmed_cache_eq load_def demo_config_def)
  have saved: "load ''A'' persisted_cache = Some (new_entry 0 ''A'' 1)"
    by (simp add: persisted_cache_def load_def demo_config_def store_get_def new_entry_def)
  have empty_p: "store_get ''A'' (entries persisted_cache) = None"
    by (simp add: persisted_cache_def store_get_def)
  have fresh5: "load_fresh 5 ''A'' persisted_cache = Some (new_entry 0 ''A'' 1)"
    using saved
    by (simp add: load_fresh_def expired_def is_expired_def persisted_cache_def demo_config_def
        new_entry_def)
  have ok: "fetch ''A'' = Inr 1"
    by (simp add: fetch_def)
  have hit: "cache_get 5 ''A'' warmed_cache =
     (Some (new_entry 0 ''A'' 1\<lparr>last_touch := 5\<rparr>),
      warmed_cache\<lparr>entries := [new_entry 0 ''A'' 1\<lparr>last_touch := 5\<rparr>]\<rparr>)"
    by (simp add: warmed_cache_eq cache_get_def store_get_def expired_def is_expired_def
        touch_def demo_config_def new_entry_def)
  note w5 = ttl_expiry [OF ttl_w, where now = 5 and k = "''A''" and derive = by_url
      and f = fetch and a = "''A''"]
  from w5 hit
  have young: "5 - created_at (new_entry 0 ''A'' (1::nat)\<lparr>last_touch := 5\<rparr>) < (10::int)"
    by blast
  note w = ttl_expiry [OF ttl_w, where now = 20 and k = "''A''" and derive = by_url
      and f = fetch and a = "''A''"]
  note p5 = ttl_expiry [OF ttl_p, where now = 5 and k = "''A''" and derive = by_url
      and f = fetch and a = "''A''"]
  note p20 = ttl_expiry [OF ttl_p, where now = 20 and k = "''A''" and derive = by_url
      and f = fetch and a = "''A''"]
  from w held old
  have g: "fst (cache_get 20 ''A'' warmed_cache) = None \<and>
           store_get ''A'' (entries (snd (cache_get 20 ''A'' warmed_cache))) = None"
    by blast
  from w key_w held old no_disk ok
  have r: "\<exists>c'. cached_call by_url fetch 20 ''A'' warmed_cache = (Inr 1, c', [''A'']) \<and>
         store_get ''A'' (entries c') = Some (new_entry 20 ''A'' 1)"
    by (simp add: ok)
  from p5 fresh5 old
  have pr: "fst (cache_get 20 ''A'' (promote (new_entry 0 ''A'' 1) persisted_cache)) = None"
    by blast
  from p20 key_p empty_p saved old ok
  have rp: "\<exists>c'. cached_call by_url fetch 20 ''A'' persisted_cache = (Inr 1, c', [''A''])"
    by auto
  have miss5: "fst (cache_get 5 ''A'' persisted_cache) = None"
    by (simp add: persisted_cache_def cache_get_def store_get_def)
  have old12: "(10::int) \<le> 12 - created_at (new_entry 0 ''A'' (1::nat))"
    and val: "cached_value (new_entry 0 ''A'' (1::nat)) = 1"
    by (simp_all add: new_entry_def)
  note from_disk = p5 [THEN conjunct2, THEN conjunct2, THEN conjunct2, THEN conjunct2,
      rule_format, OF conjI [OF key_p conjI [OF miss5 fresh5]]]
  then obtain c' where "cached_call by_url fetch 5 ''A'' persisted_cache =
        (Inr (cached_value (new_entry 0 ''A'' (1::nat))), c', [])"
      "store_get ''A'' (entries c') = Some (new_entry 0 ''A'' 1)"
      "\<forall>later (g :: string \<Rightarrow> string + nat).
         10 \<le> later - created_at (new_entry 0 ''A'' (1::nat)) \<longrightarrow>
         fst (cache_get later ''A'' c') = None \<and>
         snd (snd (cached_call by_url g later ''A'' c')) = [''A'']"
    by blast
  with old12 val
  have served: "\<exists>c'. cached_call by_url fetch 5 ''A'' persisted_cache = (Inr 1, c', []) \<and>
         store_get ''A'' (entries c') = Some (new_entry 0 ''A'' 1) \<and>
         fst (cache_get 12 ''A'' c') = None \<and>
         snd (snd (cached_call by_url fetch 12 ''A'' c')) = [''A'']"
    by auto
  from hit young g r fresh5 pr rp served show ?thesis by blast
qed



end
